theory Spec2Isabelle
  imports Main "HOL-Library.Word"
begin

unbundle bit_operations_syntax

section \<open>ITU-T G.711 companding (EzG711.c)\<close>

text \<open>
  The C types of the source are modelled by machine words of the same width:
  \<^item> \<open>uint8_t\<close> and \<open>unsigned char\<close> are \<open>8 word\<close>;
  \<^item> \<open>int16_t\<close> and \<open>short\<close> are \<open>16 word\<close>, read as two's complement by \<open>sint\<close>;
  \<^item> \<open>int\<close> and \<open>unsigned\<close> are \<open>32 word\<close>; signed comparisons are \<open>\<le>s\<close> and
    \<open><s\<close>, and \<open>>>\<close> on an \<open>int\<close> is the arithmetic shift \<open>signed_drop_bit\<close>;
  \<^item> \<open>size_t\<close> is \<open>64 word\<close> (an LP64 target).
  Integer conversions are \<open>scast\<close> (sign extension of a signed operand) and \<open>ucast\<close>
  (zero extension of an unsigned operand, or truncation to a narrower type).
\<close>

type_synonym uint8_t = "8 word"
type_synonym int16_t = "16 word"
type_synonym c_int = "32 word"
type_synonym c_unsigned = "32 word"
type_synonym size_t = "64 word"

subsection \<open>Scalar transforms\<close>

definition ALawEncode_S :: "int16_t \<Rightarrow> uint8_t" where
  "ALawEncode_S pcm16 =
    (let p = (scast pcm16 :: c_int);
         (p, a) = (if p <s 0 then (NOT p, 0x00 :: c_unsigned) else (p, 0x80));
         p = signed_drop_bit 4 p;
         (p, a) =
           (if 0x20 \<le>s p then
              (let (p, a) = (if 0x100 \<le>s p then (signed_drop_bit 4 p, a + 0x40) else (p, a));
                   (p, a) = (if 0x40 \<le>s p then (signed_drop_bit 2 p, a + 0x20) else (p, a));
                   (p, a) = (if 0x20 \<le>s p then (signed_drop_bit 1 p, a + 0x10) else (p, a))
               in (p, a))
            else (p, a));
         a = a + p
     in ucast (a XOR 0x55))"

definition ALawDecode_S :: "uint8_t \<Rightarrow> c_int" where
  "ALawDecode_S alaw0 =
    (let alaw = alaw0 XOR 0x55;
         sign = (ucast (alaw AND 0x80) :: c_unsigned);
         linear = (ucast (alaw AND 0x1f) :: c_int);
         linear = push_bit 4 linear;
         linear = linear + 8;
         alaw = alaw AND 0x7f;
         linear =
           (if 0x20 \<le> alaw then
              (let linear = linear OR 0x100;
                   shift = (ucast (drop_bit 4 alaw) :: c_unsigned) - 1
               in push_bit (unat shift) linear)
            else linear)
     in if sign = 0 then - linear else linear)"

definition ULawEncode_S :: "int16_t \<Rightarrow> uint8_t" where
  "ULawEncode_S pcm16 =
    (let p = (scast pcm16 :: c_int);
         (p, u) = (if p <s 0 then (NOT p, (0x80 XOR 0x10 XOR 0xff) :: c_unsigned)
                   else (p, 0x00 XOR 0x10 XOR 0xff));
         p = p + 0x84;
         p = (if 0x7f00 <s p then 0x7f00 else p);
         p = signed_drop_bit 3 p;
         (p, u) = (if 0x100 \<le>s p then (signed_drop_bit 4 p, u XOR 0x40) else (p, u));
         (p, u) = (if 0x40 \<le>s p then (signed_drop_bit 2 p, u XOR 0x20) else (p, u));
         (p, u) = (if 0x20 \<le>s p then (signed_drop_bit 1 p, u XOR 0x10) else (p, u));
         u = u XOR p
     in ucast u)"

definition ULawDecode_S :: "uint8_t \<Rightarrow> c_int" where
  "ULawDecode_S ulaw0 =
    (let ulaw = ulaw0 XOR 0xff;
         linear = (ucast (ulaw AND 0x0f) :: c_int);
         linear = push_bit 3 linear;
         linear = linear OR 0x84;
         shift = (ucast (drop_bit 4 ulaw) :: c_unsigned);
         shift = shift AND 7;
         linear = push_bit (unat shift) linear;
         linear = linear - 0x84
     in if ulaw AND 0x80 \<noteq> 0 then - linear else linear)"

definition ALawToULaw_S :: "uint8_t \<Rightarrow> uint8_t" where
  "ALawToULaw_S alaw0 =
    (let sign = alaw0 AND 0x80;
         alaw = alaw0 XOR sign;
         alaw = alaw XOR 0x55;
         al = (ucast alaw :: c_int);
         ulaw =
           (if alaw < 45 then
              (if alaw < 24 then (if alaw < 8 then push_bit 1 al + 1 else al + 8)
               else (if alaw < 32 then signed_drop_bit 1 al + 20 else al + 4))
            else
              (if alaw < 63 then (if alaw < 47 then al + 3 else al + 2)
               else (if alaw < 79 then al + 1 else al)));
         ulaw = ulaw XOR ucast sign
     in ucast (ulaw XOR 0x7f))"

definition ULawToALaw_S :: "uint8_t \<Rightarrow> uint8_t" where
  "ULawToALaw_S ulaw0 =
    (let sign = ulaw0 AND 0x80;
         ulaw = ulaw0 XOR sign;
         ulaw = ulaw XOR 0x7f;
         ul = (ucast ulaw :: c_int);
         alaw =
           (if ulaw < 48 then
              (if ulaw \<le> 32 then (if ulaw \<le> 15 then signed_drop_bit 1 ul else ul - 8)
               else (if ulaw \<le> 35 then push_bit 1 ul - 40 else ul - 4))
            else
              (if ulaw \<le> 63 then (if ulaw = 48 then ul - 3 else ul - 2)
               else (if ulaw \<le> 79 then ul - 1 else ul)));
         alaw = alaw XOR ucast sign
     in ucast (alaw XOR 0x55))"

subsection \<open>Reading a companded byte\<close>

text \<open>
  Both decoders undo the transmission mask first and then read bit 7 as the sign and
  bits 0 to 6 (segment and interval) as the position of the quantization bucket, counted
  from the smallest magnitude. The sign bit is set for non-negative samples in A-law and
  for negative samples in \<open>\<mu>\<close>-law.
\<close>

definition alaw_bucket :: "uint8_t \<Rightarrow> nat" where
  "alaw_bucket alaw = unat ((alaw XOR 0x55) AND 0x7f)"

definition alaw_negative :: "uint8_t \<Rightarrow> bool" where
  "alaw_negative alaw = ((alaw XOR 0x55) AND 0x80 = 0)"

definition ulaw_bucket :: "uint8_t \<Rightarrow> nat" where
  "ulaw_bucket ulaw = unat ((ulaw XOR 0xff) AND 0x7f)"

definition ulaw_negative :: "uint8_t \<Rightarrow> bool" where
  "ulaw_negative ulaw = ((ulaw XOR 0xff) AND 0x80 \<noteq> 0)"

subsection \<open>Buffer transforms\<close>

text \<open>
  A buffer is the list of the elements that start at the pointer the caller passes. All six
  wrappers run the same loop, \<open>while(dst<end) *dst++ = f(*src++)\<close>; \<open>buffer_loop\<close> is
  that loop, with \<open>i\<close> the number of elements done so far and \<open>endp\<close> the distance of
  \<open>end\<close> from the first element. The source has no bounds check: an access outside either
  buffer is undefined behaviour in C and \<open>None\<close> here.

  The wrappers return \<open>unsigned\<close>, so the \<open>size_t\<close> count (or, for the decoders, the
  \<open>size_t\<close> product \<open>srcSize<<1\<close>) is truncated to 32 bits by the \<open>return\<close>. A decoded
  \<open>int\<close> is truncated to 16 bits by the store into the \<open>int16_t\<close> destination.
\<close>

function buffer_loop :: "('a \<Rightarrow> 'b) \<Rightarrow> 'b list \<Rightarrow> 'a list \<Rightarrow> nat \<Rightarrow> nat \<Rightarrow> 'b list option" where
  "buffer_loop f dst src i endp =
    (if i < endp then
       (if i < length src \<and> i < length dst
        then buffer_loop f (dst[i := f (src ! i)]) src (Suc i) endp
        else None)
     else Some dst)"
  by pat_completeness auto
termination
  by (relation "measure (\<lambda>(f, dst, src, i, endp). endp - i)") auto

declare buffer_loop.simps [simp del]

definition ALawEncode :: "uint8_t list \<Rightarrow> int16_t list \<Rightarrow> size_t \<Rightarrow> (uint8_t list \<times> c_unsigned) option" where
  "ALawEncode dst src srcSize0 =
    (let srcSize = drop_bit 1 srcSize0
     in case buffer_loop ALawEncode_S dst src 0 (unat srcSize) of
          None \<Rightarrow> None
        | Some dst' \<Rightarrow> Some (dst', ucast srcSize))"

definition ALawDecode :: "int16_t list \<Rightarrow> uint8_t list \<Rightarrow> size_t \<Rightarrow> (int16_t list \<times> c_unsigned) option" where
  "ALawDecode dst src srcSize =
    (case buffer_loop (\<lambda>b. ucast (ALawDecode_S b)) dst src 0 (unat srcSize) of
       None \<Rightarrow> None
     | Some dst' \<Rightarrow> Some (dst', ucast (push_bit 1 srcSize)))"

definition ULawEncode :: "uint8_t list \<Rightarrow> int16_t list \<Rightarrow> size_t \<Rightarrow> (uint8_t list \<times> c_unsigned) option" where
  "ULawEncode dst src srcSize0 =
    (let srcSize = drop_bit 1 srcSize0
     in case buffer_loop ULawEncode_S dst src 0 (unat srcSize) of
          None \<Rightarrow> None
        | Some dst' \<Rightarrow> Some (dst', ucast srcSize))"

definition ULawDecode :: "int16_t list \<Rightarrow> uint8_t list \<Rightarrow> size_t \<Rightarrow> (int16_t list \<times> c_unsigned) option" where
  "ULawDecode dst src srcSize =
    (case buffer_loop (\<lambda>b. ucast (ULawDecode_S b)) dst src 0 (unat srcSize) of
       None \<Rightarrow> None
     | Some dst' \<Rightarrow> Some (dst', ucast (push_bit 1 srcSize)))"

definition ALawToULaw :: "uint8_t list \<Rightarrow> uint8_t list \<Rightarrow> size_t \<Rightarrow> (uint8_t list \<times> c_unsigned) option" where
  "ALawToULaw dst src srcSize =
    (case buffer_loop ALawToULaw_S dst src 0 (unat srcSize) of
       None \<Rightarrow> None
     | Some dst' \<Rightarrow> Some (dst', ucast srcSize))"

definition ULawToALaw :: "uint8_t list \<Rightarrow> uint8_t list \<Rightarrow> size_t \<Rightarrow> (uint8_t list \<times> c_unsigned) option" where
  "ULawToALaw dst src srcSize =
    (case buffer_loop ULawToALaw_S dst src 0 (unat srcSize) of
       None \<Rightarrow> None
     | Some dst' \<Rightarrow> Some (dst', ucast srcSize))"

subsection \<open>The encoders on mathematical integers\<close>

text \<open>
  For the properties that range over all 65536 samples the two encoders are restated on
  \<open>int\<close>, statement by statement: \<open>magnitude\<close> is the value of \<open>p\<close> after the sign has
  been taken off (the ones' complement of a negative sample), \<open>alaw_segments\<close> and
  \<open>ulaw_segments\<close> are the two threshold ladders on the shifted magnitude, and
  \<open>alaw_code\<close> and \<open>ulaw_code\<close> the value of the accumulator at the \<open>return\<close>, before
  its truncation to 8 bits. The lemmas \<open>ALawEncode_S_code\<close> and \<open>ULawEncode_S_code\<close>
  below prove that the machine-word definitions compute exactly these.
\<close>

definition magnitude :: "int16_t \<Rightarrow> int" where
  "magnitude pcm16 = (if sint pcm16 < 0 then NOT (sint pcm16) else sint pcm16)"

definition alaw_segments :: "int \<Rightarrow> int \<Rightarrow> int" where
  "alaw_segments a0 p0 =
    (let (p, a) =
           (if 0x20 \<le> p0 then
              (let (p, a) = (if 0x100 \<le> p0 then (drop_bit 4 p0, a0 + 0x40) else (p0, a0));
                   (p, a) = (if 0x40 \<le> p then (drop_bit 2 p, a + 0x20) else (p, a));
                   (p, a) = (if 0x20 \<le> p then (drop_bit 1 p, a + 0x10) else (p, a))
               in (p, a))
            else (p0, a0))
     in a + p)"

definition alaw_code :: "int \<Rightarrow> int \<Rightarrow> int" where
  "alaw_code a0 m = alaw_segments a0 (drop_bit 4 m)"

definition ulaw_segments :: "int \<Rightarrow> int \<Rightarrow> int" where
  "ulaw_segments u0 p0 =
    (let (p, u) = (if 0x100 \<le> p0 then (drop_bit 4 p0, u0 XOR 0x40) else (p0, u0));
         (p, u) = (if 0x40 \<le> p then (drop_bit 2 p, u XOR 0x20) else (p, u));
         (p, u) = (if 0x20 \<le> p then (drop_bit 1 p, u XOR 0x10) else (p, u))
     in u XOR p)"

definition ulaw_clip :: "int \<Rightarrow> int" where
  "ulaw_clip m = (let p = m + 0x84 in if 0x7f00 < p then 0x7f00 else p)"

definition ulaw_code :: "int \<Rightarrow> int \<Rightarrow> int" where
  "ulaw_code u0 m = ulaw_segments u0 (drop_bit 3 (ulaw_clip m))"

section \<open>Evaluation on concrete values\<close>

text \<open>
  A property of all 256 bytes is checked byte by byte. The definitions are unfolded at
  numerals only, so that each of the 256 instances is computed on its own.
\<close>

lemma all_less_numeral:
  "(\<forall>n<numeral k. P n) \<longleftrightarrow> P (pred_numeral k) \<and> (\<forall>n<pred_numeral k. P n)"
  by (auto simp add: numeral_eq_Suc less_Suc_eq)

lemma all_bytes: "(\<forall>b::uint8_t. P b) \<longleftrightarrow> (\<forall>n<256. P (of_nat n))"
proof
  assume every: "\<forall>n<256. P (of_nat n)"
  show "\<forall>b::uint8_t. P b"
  proof
    fix b :: uint8_t
    have "unat b < 256"
      using unsigned_less [of b, where ?'a = nat] by simp
    with every have "P (of_nat (unat b))"
      by blast
    then show "P b"
      by simp
  qed
qed simp

lemmas ALawEncode_S_num =
  ALawEncode_S_def [of "numeral k"] ALawEncode_S_def [of "- numeral k"]
  ALawEncode_S_def [of 0] ALawEncode_S_def [of 1] ALawEncode_S_def [of "- 1"] for k

lemmas ULawEncode_S_num =
  ULawEncode_S_def [of "numeral k"] ULawEncode_S_def [of "- numeral k"]
  ULawEncode_S_def [of 0] ULawEncode_S_def [of 1] ULawEncode_S_def [of "- 1"] for k

lemmas ALawDecode_S_num =
  ALawDecode_S_def [of "numeral k"] ALawDecode_S_def [of 0] ALawDecode_S_def [of 1] for k

lemmas ULawDecode_S_num =
  ULawDecode_S_def [of "numeral k"] ULawDecode_S_def [of 0] ULawDecode_S_def [of 1] for k

lemmas ALawToULaw_S_num =
  ALawToULaw_S_def [of "numeral k"] ALawToULaw_S_def [of 0] ALawToULaw_S_def [of 1] for k

lemmas ULawToALaw_S_num =
  ULawToALaw_S_def [of "numeral k"] ULawToALaw_S_def [of 0] ULawToALaw_S_def [of 1] for k

lemmas bucket_num =
  alaw_bucket_def [of "numeral k"] alaw_bucket_def [of 0] alaw_bucket_def [of 1]
  alaw_negative_def [of "numeral k"] alaw_negative_def [of 0] alaw_negative_def [of 1]
  ulaw_bucket_def [of "numeral k"] ulaw_bucket_def [of 0] ulaw_bucket_def [of 1]
  ulaw_negative_def [of "numeral k"] ulaw_negative_def [of 0] ulaw_negative_def [of 1] for k

lemmas alaw_segments_num =
  alaw_segments_def [of 0 "numeral k"] alaw_segments_def [of 0 0] alaw_segments_def [of 0 1] for k

lemmas ulaw_segments_num = ulaw_segments_def [of "numeral u" "numeral k"] for u k

lemmas word_compare = word_sless_alt word_sle_eq word_le_nat_alt word_less_nat_alt

section \<open>Round trips through the decoders\<close>

text \<open>
  C1. Every A-law byte is a fixed point of decoding and encoding again:
  \<open>ALawEncode_S(ALawDecode_S(b)) == b\<close> for all 256 bytes \<open>b\<close>. The decoded \<open>int\<close> is
  converted to \<open>int16_t\<close> at the call, which is the \<open>ucast\<close>.
\<close>

theorem alaw_round_trip: "ALawEncode_S (ucast (ALawDecode_S b)) = b"
proof -
  have "\<forall>b. ALawEncode_S (ucast (ALawDecode_S b)) = b"
    unfolding all_bytes
    by (simp add: all_less_numeral ALawEncode_S_num ALawDecode_S_num word_compare)
  then show ?thesis ..
qed

text \<open>
  C2. The same round trip for \<open>\<mu>\<close>-law, \<open>ULawEncode_S(ULawDecode_S(b)) == b\<close>, holds for
  every byte but one. \<open>\<mu>\<close>-law has two codes for zero: \<open>0xff\<close> and \<open>0x7f\<close> both decode to
  the sample 0, and 0 encodes to \<open>0xff\<close>. So \<open>0x7f\<close> comes back as \<open>0xff\<close>, and every other
  byte comes back as itself.
\<close>

theorem ulaw_round_trip:
  "ULawEncode_S (ucast (ULawDecode_S b)) = (if b = 0x7f then 0xff else b)"
proof -
  have "\<forall>b. ULawEncode_S (ucast (ULawDecode_S b)) = (if b = 0x7f then 0xff else b)"
    unfolding all_bytes
    by (simp add: all_less_numeral ULawEncode_S_num ULawDecode_S_num word_compare)
  then show ?thesis ..
qed

text \<open>The byte \<open>0x7f\<close> (negative zero) decodes to 0 and is encoded again as \<open>0xff\<close>.\<close>

theorem ulaw_round_trip_negative_zero:
  "sint (ULawDecode_S 0x7f) = 0 \<and> ULawEncode_S (ucast (ULawDecode_S 0x7f)) \<noteq> 0x7f"
  by (simp add: ULawEncode_S_num ULawDecode_S_num word_compare)

section \<open>Range of the decoders\<close>

lemma alaw_decode_bytes:
  "\<forall>b. \<bar>sint (ALawDecode_S b)\<bar> \<le> 0x7E00
     \<and> sint (ucast (ALawDecode_S b) :: int16_t) = sint (ALawDecode_S b)"
  unfolding all_bytes
  by (simp add: all_less_numeral ALawDecode_S_num word_compare)

lemma ulaw_decode_bytes:
  "\<forall>b. \<bar>sint (ULawDecode_S b)\<bar> \<le> 32124
     \<and> sint (ucast (ULawDecode_S b) :: int16_t) = sint (ULawDecode_S b)"
  unfolding all_bytes
  by (simp add: all_less_numeral ULawDecode_S_num word_compare)

text \<open>
  C10. The decoded values are bounded: \<open>|ALawDecode_S(b)| \<le> 0x7E00\<close> and
  \<open>|ULawDecode_S(b)| \<le> 32124\<close> for every byte \<open>b\<close>. So the value fits \<open>int16_t\<close>: the
  16-bit sample stored by \<open>ALawDecode\<close> and \<open>ULawDecode\<close> reads back as the decoded
  \<open>int\<close>.
\<close>

theorem decoded_range:
  "\<bar>sint (ALawDecode_S b)\<bar> \<le> 0x7E00 \<and> \<bar>sint (ULawDecode_S b)\<bar> \<le> 32124
   \<and> sint (ucast (ALawDecode_S b) :: int16_t) = sint (ALawDecode_S b)
   \<and> sint (ucast (ULawDecode_S b) :: int16_t) = sint (ULawDecode_S b)"
  using alaw_decode_bytes ulaw_decode_bytes by blast

section \<open>Direct conversion between the laws\<close>

text \<open>
  The bucket position orders the codes of one sign by magnitude: the code at the next
  position has the same sign and decodes to a strictly larger magnitude. In \<open>\<mu>\<close>-law the
  next position is the byte minus one; in A-law it is the next value under the mask.
\<close>

lemma ulaw_bucket_order:
  "\<forall>b. ulaw_bucket b < 127 \<longrightarrow>
     ulaw_bucket (b - 1) = ulaw_bucket b + 1 \<and> ulaw_negative (b - 1) = ulaw_negative b
     \<and> \<bar>sint (ULawDecode_S b)\<bar> < \<bar>sint (ULawDecode_S (b - 1))\<bar>"
  unfolding all_bytes
  by (simp add: all_less_numeral ULawDecode_S_num bucket_num word_compare)

lemma alaw_bucket_order:
  "\<forall>b. alaw_bucket b < 127 \<longrightarrow>
     alaw_bucket (((b XOR 0x55) + 1) XOR 0x55) = alaw_bucket b + 1
     \<and> alaw_negative (((b XOR 0x55) + 1) XOR 0x55) = alaw_negative b
     \<and> \<bar>sint (ALawDecode_S b)\<bar> < \<bar>sint (ALawDecode_S (((b XOR 0x55) + 1) XOR 0x55))\<bar>"
  unfolding all_bytes
  by (simp add: all_less_numeral ALawDecode_S_num bucket_num word_compare)

text \<open>
  C4. For every A-law byte \<open>b\<close>, the direct conversion \<open>ALawToULaw_S(b)\<close> and the composed
  path \<open>ULawEncode_S(ALawDecode_S(b))\<close> are \<open>\<mu>\<close>-law codes of the same sign whose
  quantization buckets are equal or adjacent: the bucket positions differ by at most one.
\<close>

theorem direct_conversion_consistent:
  "ulaw_negative (ALawToULaw_S b) = ulaw_negative (ULawEncode_S (ucast (ALawDecode_S b)))
   \<and> ulaw_bucket (ALawToULaw_S b) \<le> ulaw_bucket (ULawEncode_S (ucast (ALawDecode_S b))) + 1
   \<and> ulaw_bucket (ULawEncode_S (ucast (ALawDecode_S b))) \<le> ulaw_bucket (ALawToULaw_S b) + 1"
proof -
  have "\<forall>b.
      ulaw_negative (ALawToULaw_S b) = ulaw_negative (ULawEncode_S (ucast (ALawDecode_S b)))
    \<and> ulaw_bucket (ALawToULaw_S b) \<le> ulaw_bucket (ULawEncode_S (ucast (ALawDecode_S b))) + 1
    \<and> ulaw_bucket (ULawEncode_S (ucast (ALawDecode_S b))) \<le> ulaw_bucket (ALawToULaw_S b) + 1"
    unfolding all_bytes
    by (simp add: all_less_numeral ALawToULaw_S_num ULawEncode_S_num ALawDecode_S_num
        bucket_num word_compare)
  then show ?thesis ..
qed

text \<open>
  C8. Converting an A-law byte to \<open>\<mu>\<close>-law and back, \<open>ULawToALaw_S(ALawToULaw_S(b))\<close>, does
  not always give \<open>b\<close> back (it does not for \<open>b = 26\<close>), but for all 256 bytes the result has
  the sign of \<open>b\<close> and a quantization bucket equal or adjacent to that of \<open>b\<close>.
\<close>

theorem conversion_chain_close:
  "ULawToALaw_S (ALawToULaw_S 26) \<noteq> 26
   \<and> alaw_negative (ULawToALaw_S (ALawToULaw_S b)) = alaw_negative b
   \<and> alaw_bucket (ULawToALaw_S (ALawToULaw_S b)) \<le> alaw_bucket b + 1
   \<and> alaw_bucket b \<le> alaw_bucket (ULawToALaw_S (ALawToULaw_S b)) + 1"
proof -
  have "\<forall>b. alaw_negative (ULawToALaw_S (ALawToULaw_S b)) = alaw_negative b
    \<and> alaw_bucket (ULawToALaw_S (ALawToULaw_S b)) \<le> alaw_bucket b + 1
    \<and> alaw_bucket b \<le> alaw_bucket (ULawToALaw_S (ALawToULaw_S b)) + 1"
    unfolding all_bytes
    by (simp add: all_less_numeral ALawToULaw_S_num ULawToALaw_S_num bucket_num word_compare)
  moreover have "ULawToALaw_S (ALawToULaw_S 26) \<noteq> 26"
    by (simp add: ALawToULaw_S_num ULawToALaw_S_num word_compare)
  ultimately show ?thesis
    by blast
qed

section \<open>The encoders as integer functions\<close>

text \<open>
  Conversions between the word types. A signed 16-bit sample keeps its value as \<open>int\<close>;
  the ones' complement and the bias stay inside 32 bits; the truncation to \<open>uint8_t\<close>
  commutes with addition and exclusive or.
\<close>

lemma sint_scast_16_32: "sint (scast (x :: int16_t) :: c_int) = sint x"
  by (rule sint_up_scast) (simp add: is_up)

lemma sint_16_range: "- 32768 \<le> sint (x :: int16_t)" "sint (x :: int16_t) < 32768"
  using sint_ge [of x] sint_lt [of x] by simp_all

lemma sint_NOT_32: "sint (NOT (w :: c_int)) = NOT (sint w)"
proof -
  have "- (2 ^ 31) \<le> sint w" "sint w < 2 ^ 31"
    using sint_ge [of w] sint_lt [of w] by simp_all
  then have "- (2 ^ 32) \<le> NOT (sint w)" "NOT (sint w) < 2 ^ 32"
    by (simp_all add: not_int_def)
  then show ?thesis
    by (simp add: signed_not_eq signed_take_bit_int_eq_self)
qed

lemma sint_NOT_16: "sint (NOT (x :: int16_t)) = NOT (sint x)"
proof -
  have "- (2 ^ 16) \<le> NOT (sint x)" "NOT (sint x) < 2 ^ 16"
    using sint_16_range [of x] by (simp_all add: not_int_def)
  then show ?thesis
    by (simp add: signed_not_eq signed_take_bit_int_eq_self)
qed

lemma sint_bias_pos: "sint ((scast (x :: int16_t) :: c_int) + 0x84) = sint x + 0x84"
  using sint_16_range [of x]
  by (simp add: sint_word_ariths sint_scast_16_32 signed_take_bit_int_eq_self)

lemma sint_bias_neg: "sint (NOT (scast (x :: int16_t) :: c_int) + 0x84) = NOT (sint x) + 0x84"
  using sint_16_range [of x]
  by (simp add: sint_word_ariths sint_scast_16_32 sint_NOT_32 signed_take_bit_int_eq_self
      not_int_def)

lemma take_bit_8_minus_2p32: "take_bit 8 (k - 4294967296) = take_bit 8 (k :: int)"
proof -
  have "(k + 256 * (- 16777216)) mod 256 = k mod 256"
    by (rule mod_mult_self2)
  then show ?thesis
    by (simp add: take_bit_eq_mod)
qed

lemma ucast_32_8_sint: "(ucast (w :: c_int) :: uint8_t) = word_of_int (sint w)"
proof -
  have "(word_of_int (sint w) :: uint8_t) = word_of_int (uint w)"
    unfolding word_of_int_eq_iff
    by (simp add: sint_uint signed_take_bit_eq_take_bit_minus take_bit_8_minus_2p32)
  then show ?thesis
    by (simp add: unsigned_of_int)
qed

lemma take_bit_8_add_32:
  "take_bit 8 (take_bit 32 a + take_bit 32 b) = take_bit 8 (a + b :: int)"
proof -
  have "take_bit 8 (take_bit 32 a + take_bit 32 b)
      = take_bit 8 (take_bit 32 (take_bit 32 a + take_bit 32 b))"
    by simp
  also have "\<dots> = take_bit 8 (take_bit 32 (a + b))"
    by (simp only: take_bit_add)
  finally show ?thesis
    by simp
qed

lemma ucast_32_8_add: "(ucast (a + b :: c_unsigned) :: uint8_t) = ucast a + ucast b"
  by transfer (simp add: take_bit_8_add_32)

text \<open>
  A conditional update \<open>if (c) { p >>= k; a += d; }\<close> is a \<open>let\<close> of a conditional
  pair. Pushing the rest of the function into both branches turns each encoder into a
  decision tree whose tests and leaves are then read as integers.
\<close>

lemma case_prod_if:
  "(case (if c then x else y) of (p, a) \<Rightarrow> f p a)
   = (if c then (case x of (p, a) \<Rightarrow> f p a) else (case y of (p, a) \<Rightarrow> f p a))"
  by simp

lemma Let_if: "Let (if c then x else y) f = (if c then Let x f else Let y f)"
  by simp

lemmas ladder_tree = case_prod_if Let_if Let_def prod.case if_True if_False

lemmas ladder_to_int =
  word_sless_alt word_sle_eq sint_bias_pos sint_bias_neg sint_scast_16_32 sint_NOT_32
  sint_signed_drop_bit_eq if_distrib [of sint]

text \<open>
  The machine-word encoders compute the integer restatements, for every sample.
\<close>

lemma ALawEncode_S_code:
  "ALawEncode_S x
   = word_of_int (alaw_code (if sint x < 0 then 0x00 else 0x80) (magnitude x)) XOR 0x55"
  apply (simp only: ALawEncode_S_def alaw_code_def alaw_segments_def)
  apply (simp only: ladder_tree)
  apply (simp only: unsigned_xor_eq ucast_32_8_add if_distrib [of ucast])
  apply (simp only: ucast_32_8_sint)
  apply (simp only: ladder_to_int cong del: if_weak_cong)
  apply (cases "sint x < 0")
   apply (simp_all add: magnitude_def)
  done

lemma ULawEncode_S_code:
  "ULawEncode_S x
   = word_of_int (ulaw_code (if sint x < 0 then 0x80 XOR 0x10 XOR 0xff else 0x00 XOR 0x10 XOR 0xff)
       (magnitude x))"
  apply (simp only: ULawEncode_S_def ulaw_code_def ulaw_segments_def ulaw_clip_def)
  apply (simp only: ladder_tree)
  apply (simp only: unsigned_xor_eq if_distrib [of ucast])
  apply (simp only: ucast_32_8_sint)
  apply (simp only: ladder_to_int cong del: if_weak_cong)
  apply (cases "sint x < 0")
   apply (simp_all add: magnitude_def of_int_xor_eq)
  done

section \<open>Monotone ladders\<close>

text \<open>
  A function on an initial segment of the integers is monotone when each step is. The
  steps of the two ladders (2047 and 4048 of them) and of the decoders (127 per sign)
  are checked one by one.
\<close>

lemma steps_mono:
  fixes f :: "int \<Rightarrow> int"
  assumes steps: "\<forall>n<N. f (int n) \<le> f (int n + 1)"
    and "0 \<le> i" "i \<le> j" "j \<le> int N"
  shows "f i \<le> f j"
proof -
  have "f (int a) \<le> f (int (a + d))" if "a + d \<le> N" for a d
    using that
  proof (induction d)
    case 0
    show ?case by simp
  next
    case (Suc d)
    then have "f (int a) \<le> f (int (a + d))"
      by simp
    moreover have "f (int (a + d)) \<le> f (int (a + d) + 1)"
      using steps [rule_format, of "a + d"] Suc.prems by linarith
    ultimately show ?case
      by (simp add: algebra_simps)
  qed
  from this [of "nat i" "nat (j - i)"] assms show ?thesis
    by simp
qed

lemma alaw_segments_steps: "\<forall>n<2047. alaw_segments 0 (int n) \<le> alaw_segments 0 (int n + 1)"
  by (simp add: all_less_numeral alaw_segments_num)

lemma alaw_segments_ends: "alaw_segments 0 0 = 0" "alaw_segments 0 2047 = 127"
  by (simp_all add: alaw_segments_num)

lemma alaw_segments_mono:
  "0 \<le> p \<Longrightarrow> p \<le> q \<Longrightarrow> q \<le> 2047 \<Longrightarrow> alaw_segments 0 p \<le> alaw_segments 0 q"
  using steps_mono [OF alaw_segments_steps, of p q] by simp

lemma alaw_segments_range:
  assumes "0 \<le> q" "q \<le> 2047"
  shows "0 \<le> alaw_segments 0 q" "alaw_segments 0 q \<le> 127"
  using alaw_segments_mono [of 0 q] alaw_segments_mono [of q 2047] assms
  by (simp_all add: alaw_segments_ends)

lemma alaw_segments_sign: "alaw_segments a0 q = a0 + alaw_segments 0 q"
  apply (simp only: alaw_segments_def)
  apply (simp only: ladder_tree)
  apply simp
  done

lemma ulaw_segments_steps_pos:
  "\<forall>n<4048. - ulaw_segments 0xef (int n + 16) \<le> - ulaw_segments 0xef (int n + 1 + 16)"
  by (simp add: all_less_numeral ulaw_segments_num)

lemma ulaw_segments_steps_neg:
  "\<forall>n<4048. - ulaw_segments 0x6f (int n + 16) \<le> - ulaw_segments 0x6f (int n + 1 + 16)"
  by (simp add: all_less_numeral ulaw_segments_num)

lemma ulaw_segments_ends:
  "ulaw_segments 0xef 16 = 0xff" "ulaw_segments 0xef 4064 = 0x80"
  "ulaw_segments 0x6f 16 = 0x7f" "ulaw_segments 0x6f 4064 = 0x00"
  by (simp_all add: ulaw_segments_num)

lemma ulaw_segments_anti:
  assumes "16 \<le> p" "p \<le> q" "q \<le> 4064"
  shows "ulaw_segments 0xef q \<le> ulaw_segments 0xef p"
    and "ulaw_segments 0x6f q \<le> ulaw_segments 0x6f p"
  using steps_mono [OF ulaw_segments_steps_pos, of "p - 16" "q - 16"]
    steps_mono [OF ulaw_segments_steps_neg, of "p - 16" "q - 16"] assms
  by simp_all

lemma ulaw_segments_range:
  assumes "16 \<le> q" "q \<le> 4064"
  shows "0x80 \<le> ulaw_segments 0xef q" "ulaw_segments 0xef q \<le> 0xff"
    and "0 \<le> ulaw_segments 0x6f q" "ulaw_segments 0x6f q \<le> 0x7f"
  using ulaw_segments_anti [of 16 q] ulaw_segments_anti [of q 4064] assms
  by (simp_all add: ulaw_segments_ends)

lemma alaw_decode_steps_pos:
  "\<forall>n<127. sint (ALawDecode_S (word_of_int (0x80 + int n) XOR 0x55))
     \<le> sint (ALawDecode_S (word_of_int (0x80 + (int n + 1)) XOR 0x55))"
  by (simp add: all_less_numeral ALawDecode_S_num word_compare)

lemma alaw_decode_steps_neg:
  "\<forall>n<127. - sint (ALawDecode_S (word_of_int (int n) XOR 0x55))
     \<le> - sint (ALawDecode_S (word_of_int (int n + 1) XOR 0x55))"
  by (simp add: all_less_numeral ALawDecode_S_num word_compare)

lemma alaw_decode_sign:
  "\<forall>n<128. ALawDecode_S (word_of_int (0x80 + int n) XOR 0x55)
     = - ALawDecode_S (word_of_int (int n) XOR 0x55)"
  by (simp add: all_less_numeral ALawDecode_S_num word_compare)

lemma ulaw_decode_steps_pos:
  "\<forall>n<127. - sint (ULawDecode_S (word_of_int (int n + 0x80)))
     \<le> - sint (ULawDecode_S (word_of_int (int n + 1 + 0x80)))"
  by (simp add: all_less_numeral ULawDecode_S_num word_compare)

lemma ulaw_decode_steps_neg:
  "\<forall>n<127. sint (ULawDecode_S (word_of_int (int n)))
     \<le> sint (ULawDecode_S (word_of_int (int n + 1)))"
  by (simp add: all_less_numeral ULawDecode_S_num word_compare)

lemma magnitude_range: "0 \<le> magnitude x" "magnitude x \<le> 32767"
  using sint_16_range [of x] by (simp_all add: magnitude_def not_int_def)

lemma alaw_shift_range: "0 \<le> drop_bit 4 (magnitude x)" "drop_bit 4 (magnitude x) \<le> 2047"
  using magnitude_range [of x] by (simp_all add: drop_bit_eq_div)

lemma ulaw_shift_range:
  "16 \<le> drop_bit 3 (ulaw_clip (magnitude x))" "drop_bit 3 (ulaw_clip (magnitude x)) \<le> 4064"
proof -
  have "132 \<le> ulaw_clip (magnitude x)" "ulaw_clip (magnitude x) \<le> 32512"
    using magnitude_range [of x] by (simp_all add: ulaw_clip_def Let_def)
  then show "16 \<le> drop_bit 3 (ulaw_clip (magnitude x))"
    and "drop_bit 3 (ulaw_clip (magnitude x)) \<le> 4064"
    using zdiv_mono1 [of 132 "ulaw_clip (magnitude x)" 8]
      zdiv_mono1 [of "ulaw_clip (magnitude x)" 32512 8]
    by (simp_all add: drop_bit_eq_div)
qed

lemma ulaw_shift_mono:
  "m \<le> n \<Longrightarrow> drop_bit 3 (ulaw_clip m) \<le> drop_bit 3 (ulaw_clip n)"
  by (simp add: drop_bit_eq_div ulaw_clip_def Let_def zdiv_mono1)

lemma ALawEncode_S_segments:
  "ALawEncode_S x
   = word_of_int ((if sint x < 0 then 0x00 else 0x80) + alaw_segments 0 (drop_bit 4 (magnitude x)))
     XOR 0x55"
  using alaw_segments_sign [of "if sint x < 0 then 0x00 else 0x80" "drop_bit 4 (magnitude x)"]
  by (simp only: ALawEncode_S_code alaw_code_def)

lemma ULawEncode_S_segments:
  "ULawEncode_S x
   = word_of_int (ulaw_segments (if sint x < 0 then 0x6f else 0xef)
       (drop_bit 3 (ulaw_clip (magnitude x))))"
  by (simp add: ULawEncode_S_code ulaw_code_def)

lemma alaw_monotone_nonneg:
  assumes "0 \<le> sint x" "sint x \<le> sint y"
  shows "sint (ALawDecode_S (ALawEncode_S x)) \<le> sint (ALawDecode_S (ALawEncode_S y))"
proof -
  let ?a = "\<lambda>z. alaw_segments 0 (drop_bit 4 (magnitude z))"
  from assms have m: "magnitude x \<le> magnitude y"
    by (simp add: magnitude_def)
  then have "drop_bit 4 (magnitude x) \<le> drop_bit 4 (magnitude y)"
    by (simp add: drop_bit_eq_div zdiv_mono1)
  then have a: "0 \<le> ?a x" "?a x \<le> ?a y" "?a y \<le> 127"
    using alaw_segments_mono [of "drop_bit 4 (magnitude x)" "drop_bit 4 (magnitude y)"]
      alaw_segments_range [of "drop_bit 4 (magnitude x)"]
      alaw_segments_range [of "drop_bit 4 (magnitude y)"]
      alaw_shift_range [of x] alaw_shift_range [of y]
    by simp_all
  have "sint (ALawDecode_S (word_of_int (0x80 + ?a x) XOR 0x55))
      \<le> sint (ALawDecode_S (word_of_int (0x80 + ?a y) XOR 0x55))"
    using steps_mono [where f = "\<lambda>k. sint (ALawDecode_S (word_of_int (0x80 + k) XOR 0x55))"
        and N = 127 and i = "?a x" and j = "?a y", OF alaw_decode_steps_pos] a
    by simp
  with assms show ?thesis
    by (simp add: ALawEncode_S_segments)
qed

lemma alaw_monotone_neg:
  assumes "sint y \<le> sint x" "sint x \<le> - 1"
  shows "sint (ALawDecode_S (ALawEncode_S y)) \<le> sint (ALawDecode_S (ALawEncode_S x))"
proof -
  let ?a = "\<lambda>z. alaw_segments 0 (drop_bit 4 (magnitude z))"
  from assms have m: "magnitude x \<le> magnitude y"
    by (simp add: magnitude_def not_int_def)
  then have "drop_bit 4 (magnitude x) \<le> drop_bit 4 (magnitude y)"
    by (simp add: drop_bit_eq_div zdiv_mono1)
  then have a: "0 \<le> ?a x" "?a x \<le> ?a y" "?a y \<le> 127"
    using alaw_segments_mono [of "drop_bit 4 (magnitude x)" "drop_bit 4 (magnitude y)"]
      alaw_segments_range [of "drop_bit 4 (magnitude x)"]
      alaw_segments_range [of "drop_bit 4 (magnitude y)"]
      alaw_shift_range [of x] alaw_shift_range [of y]
    by simp_all
  have "- sint (ALawDecode_S (word_of_int (?a x) XOR 0x55))
      \<le> - sint (ALawDecode_S (word_of_int (?a y) XOR 0x55))"
    using steps_mono [where f = "\<lambda>k. - sint (ALawDecode_S (word_of_int k XOR 0x55))"
        and N = 127 and i = "?a x" and j = "?a y", OF alaw_decode_steps_neg] a
    by simp
  with assms show ?thesis
    by (simp add: ALawEncode_S_segments)
qed

lemma ulaw_monotone_nonneg:
  assumes "0 \<le> sint x" "sint x \<le> sint y"
  shows "sint (ULawDecode_S (ULawEncode_S x)) \<le> sint (ULawDecode_S (ULawEncode_S y))"
proof -
  let ?q = "\<lambda>z. drop_bit 3 (ulaw_clip (magnitude z))"
  let ?u = "\<lambda>z. ulaw_segments 0xef (?q z)"
  from assms have m: "magnitude x \<le> magnitude y"
    by (simp add: magnitude_def)
  then have "?q x \<le> ?q y"
    by (rule ulaw_shift_mono)
  then have u: "0x80 \<le> ?u y" "?u y \<le> ?u x" "?u x \<le> 0xff"
    using ulaw_segments_anti(1) [of "?q x" "?q y"]
      ulaw_segments_range(1,2) [of "?q x"] ulaw_segments_range(1,2) [of "?q y"]
      ulaw_shift_range [of x] ulaw_shift_range [of y]
    by simp_all
  have "- sint (ULawDecode_S (word_of_int (?u y - 0x80 + 0x80)))
      \<le> - sint (ULawDecode_S (word_of_int (?u x - 0x80 + 0x80)))"
    using steps_mono [where f = "\<lambda>k. - sint (ULawDecode_S (word_of_int (k + 0x80)))"
        and N = 127 and i = "?u y - 0x80" and j = "?u x - 0x80", OF ulaw_decode_steps_pos] u
    by simp
  with assms show ?thesis
    by (simp add: ULawEncode_S_segments)
qed

lemma ulaw_monotone_neg:
  assumes "sint y \<le> sint x" "sint x \<le> - 1"
  shows "sint (ULawDecode_S (ULawEncode_S y)) \<le> sint (ULawDecode_S (ULawEncode_S x))"
proof -
  let ?q = "\<lambda>z. drop_bit 3 (ulaw_clip (magnitude z))"
  let ?u = "\<lambda>z. ulaw_segments 0x6f (?q z)"
  from assms have m: "magnitude x \<le> magnitude y"
    by (simp add: magnitude_def not_int_def)
  then have "?q x \<le> ?q y"
    by (rule ulaw_shift_mono)
  then have u: "0 \<le> ?u y" "?u y \<le> ?u x" "?u x \<le> 0x7f"
    using ulaw_segments_anti(2) [of "?q x" "?q y"]
      ulaw_segments_range(3,4) [of "?q x"] ulaw_segments_range(3,4) [of "?q y"]
      ulaw_shift_range [of x] ulaw_shift_range [of y]
    by simp_all
  have "sint (ULawDecode_S (word_of_int (?u y))) \<le> sint (ULawDecode_S (word_of_int (?u x)))"
    using steps_mono [where f = "\<lambda>k. sint (ULawDecode_S (word_of_int k))"
        and N = 127 and i = "?u y" and j = "?u x", OF ulaw_decode_steps_neg] u
    by simp
  with assms show ?thesis
    by (simp add: ULawEncode_S_segments)
qed

text \<open>
  C6. For both laws and all samples \<open>x\<close>, \<open>y\<close>: if \<open>0 \<le> x \<le> y\<close> then
  \<open>decode(encode(x)) \<le> decode(encode(y))\<close>, and if \<open>y \<le> x \<le> -1\<close> then
  \<open>decode(encode(y)) \<le> decode(encode(x))\<close>: within each sign half a larger magnitude
  never decodes to a smaller reconstructed magnitude.
\<close>

theorem reconstruction_monotone:
  "(0 \<le> sint x \<and> sint x \<le> sint y \<longrightarrow>
      sint (ALawDecode_S (ALawEncode_S x)) \<le> sint (ALawDecode_S (ALawEncode_S y))
    \<and> sint (ULawDecode_S (ULawEncode_S x)) \<le> sint (ULawDecode_S (ULawEncode_S y)))
   \<and> (sint y \<le> sint x \<and> sint x \<le> - 1 \<longrightarrow>
      sint (ALawDecode_S (ALawEncode_S y)) \<le> sint (ALawDecode_S (ALawEncode_S x))
    \<and> sint (ULawDecode_S (ULawEncode_S y)) \<le> sint (ULawDecode_S (ULawEncode_S x)))"
  using alaw_monotone_nonneg [of x y] ulaw_monotone_nonneg [of x y]
    alaw_monotone_neg [of y x] ulaw_monotone_neg [of y x]
  by blast

theorem reconstruction_monotone_witness:
  "0 \<le> sint (100 :: int16_t) \<and> sint (100 :: int16_t) \<le> sint (1000 :: int16_t)
   \<and> sint (ALawDecode_S (ALawEncode_S 100)) \<le> sint (ALawDecode_S (ALawEncode_S 1000))
   \<and> sint (ULawDecode_S (ULawEncode_S 100)) \<le> sint (ULawDecode_S (ULawEncode_S 1000))
   \<and> sint (- 1000 :: int16_t) \<le> sint (- 100 :: int16_t) \<and> sint (- 100 :: int16_t) \<le> - 1
   \<and> sint (ALawDecode_S (ALawEncode_S (- 1000))) \<le> sint (ALawDecode_S (ALawEncode_S (- 100)))
   \<and> sint (ULawDecode_S (ULawEncode_S (- 1000))) \<le> sint (ULawDecode_S (ULawEncode_S (- 100)))"
  using reconstruction_monotone [of 100 1000] reconstruction_monotone [of "- 100" "- 1000"]
  by simp

section \<open>Sign symmetry and saturation\<close>

lemma sint_minus_32:
  assumes "\<bar>sint (w :: c_int)\<bar> \<le> 0x7E00"
  shows "sint (- w) = - sint w"
  using assms by (simp add: sint_word_ariths signed_take_bit_int_eq_self)

lemma alaw_decode_flip:
  assumes "0 \<le> a" "a \<le> 127"
  shows "ALawDecode_S (word_of_int (0x80 + a) XOR 0x55) = - ALawDecode_S (word_of_int a XOR 0x55)"
  using alaw_decode_sign [rule_format, of "nat a"] assms by simp

lemma magnitude_NOT: "magnitude (NOT x) = magnitude x"
  by (simp add: magnitude_def sint_NOT_16 not_int_def)

text \<open>
  C5. For every sample \<open>x\<close>, \<open>ALawDecode_S(ALawEncode_S(-x-1)) == -ALawDecode_S(ALawEncode_S(x))\<close>,
  exactly: as \<open>int\<close> values of the C program (the first equation; the negation does not
  overflow) and as mathematical integers (the second).
\<close>

theorem alaw_sign_symmetry:
  "ALawDecode_S (ALawEncode_S (- x - 1)) = - ALawDecode_S (ALawEncode_S x)
   \<and> sint (ALawDecode_S (ALawEncode_S (- x - 1))) = - sint (ALawDecode_S (ALawEncode_S x))"
proof -
  let ?a = "alaw_segments 0 (drop_bit 4 (magnitude x))"
  have a: "0 \<le> ?a" "?a \<le> 127"
    using alaw_segments_range [of "drop_bit 4 (magnitude x)"] alaw_shift_range [of x]
    by simp_all
  have complement: "- x - 1 = NOT x"
    by (simp add: not_eq_complement)
  have words: "ALawDecode_S (ALawEncode_S (NOT x)) = - ALawDecode_S (ALawEncode_S x)"
  proof (cases "sint x < 0")
    case True
    then have "ALawEncode_S x = word_of_int ?a XOR 0x55"
      and "ALawEncode_S (NOT x) = word_of_int (0x80 + ?a) XOR 0x55"
      by (simp_all add: ALawEncode_S_segments magnitude_NOT sint_NOT_16 not_int_def)
    then show ?thesis
      using alaw_decode_flip [OF a] by simp
  next
    case False
    then have "ALawEncode_S x = word_of_int (0x80 + ?a) XOR 0x55"
      and "ALawEncode_S (NOT x) = word_of_int ?a XOR 0x55"
      by (simp_all add: ALawEncode_S_segments magnitude_NOT sint_NOT_16 not_int_def)
    then show ?thesis
      using alaw_decode_flip [OF a] by simp
  qed
  moreover have "sint (- ALawDecode_S (ALawEncode_S x)) = - sint (ALawDecode_S (ALawEncode_S x))"
    using alaw_decode_bytes by (simp add: sint_minus_32)
  ultimately show ?thesis
    by (simp add: complement)
qed

text \<open>
  C7. \<open>ULawEncode_S\<close> saturates silently. It is a total function, and for every sample
  whose ones'-complement magnitude plus the bias \<open>0x84\<close> exceeds \<open>0x7f00\<close> the working
  value is capped at \<open>0x7f00\<close>, so that all such samples of one sign encode to the same
  byte (\<open>0x80\<close> if non-negative, \<open>0x00\<close> if negative), the code of the largest magnitude
  that \<open>ULawDecode_S\<close> produces.
\<close>

theorem ulaw_saturation:
  assumes "0x7f00 < magnitude x + 0x84"
  shows "ulaw_clip (magnitude x) = 0x7f00
    \<and> ULawEncode_S x = (if sint x < 0 then 0x00 else 0x80)
    \<and> sint (ULawDecode_S (ULawEncode_S x)) = (if sint x < 0 then - 32124 else 32124)"
proof -
  from assms have clip: "ulaw_clip (magnitude x) = 0x7f00"
    by (simp add: ulaw_clip_def)
  then have code: "ULawEncode_S x = (if sint x < 0 then 0x00 else 0x80)"
    by (simp add: ULawEncode_S_segments ulaw_segments_ends)
  have "sint (ULawDecode_S 0x00) = - 32124" "sint (ULawDecode_S 0x80) = 32124"
    by (simp_all add: ULawDecode_S_num word_compare)
  with clip code show ?thesis
    by simp
qed

theorem ulaw_saturation_witness:
  "0x7f00 < magnitude 0x7fff + 0x84 \<and> ULawEncode_S 0x7fff = 0x80
   \<and> sint (ULawDecode_S (ULawEncode_S 0x7fff)) = 32124"
  using ulaw_saturation [of "0x7fff"] by (auto simp add: magnitude_def)

section \<open>What the buffer transforms write and return\<close>

text \<open>
  The loop, started at \<open>i\<close> with both buffers long enough, leaves the first \<open>i\<close> elements
  of the destination, writes the transform of the source from \<open>i\<close> up to \<open>n\<close>, and
  leaves the destination from \<open>n\<close> on. With a buffer shorter than \<open>n\<close> it runs outside.
\<close>

lemma buffer_loop_from:
  "i \<le> n \<Longrightarrow> n \<le> length src \<Longrightarrow> n \<le> length dst \<Longrightarrow>
   buffer_loop f dst src i n = Some (take i dst @ map f (take (n - i) (drop i src)) @ drop n dst)"
proof (induction f dst src i n rule: buffer_loop.induct)
  case (1 f dst src i n)
  show ?case
  proof (cases "i < n")
    case False
    then have "buffer_loop f dst src i n = Some dst"
      by (subst buffer_loop.simps) simp
    with False "1.prems" show ?thesis
      by simp
  next
    case True
    with "1.prems" have inside: "i < length src" "i < length dst"
      by simp_all
    let ?dst = "dst[i := f (src ! i)]"
    have "buffer_loop f dst src i n = buffer_loop f ?dst src (Suc i) n"
      using True inside by (subst buffer_loop.simps) simp
    moreover have "buffer_loop f ?dst src (Suc i) n
        = Some (take (Suc i) ?dst @ map f (take (n - Suc i) (drop (Suc i) src)) @ drop n ?dst)"
      using "1.IH" [OF True] inside True "1.prems" by simp
    moreover have "take (Suc i) ?dst = take i dst @ [f (src ! i)]"
      using inside by (simp add: take_Suc_conv_app_nth)
    moreover have "drop n ?dst = drop n dst"
      using True by simp
    moreover have "take (n - i) (drop i src) = src ! i # take (n - Suc i) (drop (Suc i) src)"
    proof -
      have "drop i src = src ! i # drop (Suc i) src"
        using inside by (simp add: Cons_nth_drop_Suc)
      moreover have "n - i = Suc (n - Suc i)"
        using True by simp
      ultimately show ?thesis
        by simp
    qed
    ultimately show ?thesis
      by simp
  qed
qed

lemma buffer_loop_all:
  "n \<le> length src \<Longrightarrow> n \<le> length dst \<Longrightarrow>
   buffer_loop f dst src 0 n = Some (map f (take n src) @ drop n dst)"
  using buffer_loop_from [of 0 n src dst f] by simp

lemma buffer_loop_outside:
  "i \<le> length src \<Longrightarrow> i \<le> length dst \<Longrightarrow> length src < n \<or> length dst < n \<Longrightarrow>
   buffer_loop f dst src i n = None"
proof (induction f dst src i n rule: buffer_loop.induct)
  case (1 f dst src i n)
  from "1.prems" have more: "i < n"
    by auto
  show ?case
  proof (cases "i < length src \<and> i < length dst")
    case False
    with more show ?thesis
      by (subst buffer_loop.simps) auto
  next
    case True
    with more have "buffer_loop f dst src i n = buffer_loop f (dst[i := f (src ! i)]) src (Suc i) n"
      by (subst buffer_loop.simps) simp
    with True more "1.IH" "1.prems" show ?thesis
      by simp
  qed
qed

text \<open>
  The value returned: the \<open>size_t\<close> count, as an \<open>unsigned\<close>.
\<close>

lemma half_count: "unat (drop_bit 1 (srcSize :: size_t)) = unat srcSize div 2"
  by (simp add: drop_bit_eq_div unat_div)

lemma returned_count: "(ucast (w :: size_t) :: c_unsigned) = of_nat (unat w)"
  by simp

lemma returned_double: "(ucast (push_bit 1 (w :: size_t)) :: c_unsigned) = of_nat (2 * unat w)"
proof -
  have "unat (push_bit 1 w) = 2 * unat w mod 2 ^ 64"
    by (simp add: push_bit_eq_mult unat_word_ariths mult.commute)
  moreover have "2 * unat w mod 2 ^ 64 mod 2 ^ 32 = 2 * unat w mod 2 ^ 32"
    by (rule mod_mod_cancel) simp
  ultimately have "(of_nat (unat (push_bit 1 w)) :: c_unsigned) = of_nat (2 * unat w)"
    by (simp only: word_of_nat_eq_iff take_bit_eq_mod) simp
  then show ?thesis
    by (simp only: returned_count)
qed

lemma ALawEncode_result:
  assumes "unat srcSize div 2 \<le> length src" "unat srcSize div 2 \<le> length dst"
  shows "ALawEncode dst src srcSize
    = Some (map ALawEncode_S (take (unat srcSize div 2) src) @ drop (unat srcSize div 2) dst,
        of_nat (unat srcSize div 2))"
  unfolding ALawEncode_def Let_def returned_count half_count
  using assms by (simp add: buffer_loop_all)

lemma ULawEncode_result:
  assumes "unat srcSize div 2 \<le> length src" "unat srcSize div 2 \<le> length dst"
  shows "ULawEncode dst src srcSize
    = Some (map ULawEncode_S (take (unat srcSize div 2) src) @ drop (unat srcSize div 2) dst,
        of_nat (unat srcSize div 2))"
  unfolding ULawEncode_def Let_def returned_count half_count
  using assms by (simp add: buffer_loop_all)

lemma ALawDecode_result:
  assumes "unat srcSize \<le> length src" "unat srcSize \<le> length dst"
  shows "ALawDecode dst src srcSize
    = Some (map (\<lambda>b. ucast (ALawDecode_S b)) (take (unat srcSize) src) @ drop (unat srcSize) dst,
        of_nat (2 * unat srcSize))"
  unfolding ALawDecode_def returned_double
  using assms by (simp add: buffer_loop_all)

lemma ULawDecode_result:
  assumes "unat srcSize \<le> length src" "unat srcSize \<le> length dst"
  shows "ULawDecode dst src srcSize
    = Some (map (\<lambda>b. ucast (ULawDecode_S b)) (take (unat srcSize) src) @ drop (unat srcSize) dst,
        of_nat (2 * unat srcSize))"
  unfolding ULawDecode_def returned_double
  using assms by (simp add: buffer_loop_all)

lemma ALawToULaw_result:
  assumes "unat srcSize \<le> length src" "unat srcSize \<le> length dst"
  shows "ALawToULaw dst src srcSize
    = Some (map ALawToULaw_S (take (unat srcSize) src) @ drop (unat srcSize) dst,
        of_nat (unat srcSize))"
  unfolding ALawToULaw_def returned_count
  using assms by (simp add: buffer_loop_all)

lemma ULawToALaw_result:
  assumes "unat srcSize \<le> length src" "unat srcSize \<le> length dst"
  shows "ULawToALaw dst src srcSize
    = Some (map ULawToALaw_S (take (unat srcSize) src) @ drop (unat srcSize) dst,
        of_nat (unat srcSize))"
  unfolding ULawToALaw_def returned_count
  using assms by (simp add: buffer_loop_all)

text \<open>
  C3. With \<open>N\<close> the element count (\<open>srcSize/2\<close> for the encoders, \<open>srcSize\<close> for the
  decoders and the converters) and buffers of at least \<open>N\<close> elements: \<open>ALawEncode\<close> and
  \<open>ULawEncode\<close> write exactly \<open>N\<close> companded bytes and return \<open>N\<close>; \<open>ALawDecode\<close> and
  \<open>ULawDecode\<close> write exactly \<open>N\<close> 16-bit samples and return \<open>2*N\<close>; \<open>ALawToULaw\<close> and
  \<open>ULawToALaw\<close> write exactly \<open>N\<close> bytes and return \<open>N\<close>. The destination beyond the
  first \<open>N\<close> elements is unchanged. The returned value is an \<open>unsigned\<close>: it is the count
  modulo \<open>2^32\<close>, which is the count itself whenever that is below \<open>2^32\<close>.
\<close>

theorem buffer_size_law:
  "(unat srcSize div 2 \<le> length pcm \<and> unat srcSize div 2 \<le> length dst8 \<longrightarrow>
      ALawEncode dst8 pcm srcSize
        = Some (map ALawEncode_S (take (unat srcSize div 2) pcm) @ drop (unat srcSize div 2) dst8,
            of_nat (unat srcSize div 2))
    \<and> ULawEncode dst8 pcm srcSize
        = Some (map ULawEncode_S (take (unat srcSize div 2) pcm) @ drop (unat srcSize div 2) dst8,
            of_nat (unat srcSize div 2)))
   \<and> (unat srcSize \<le> length bytes \<and> unat srcSize \<le> length dst16 \<longrightarrow>
      ALawDecode dst16 bytes srcSize
        = Some (map (\<lambda>b. ucast (ALawDecode_S b)) (take (unat srcSize) bytes)
                @ drop (unat srcSize) dst16,
            of_nat (2 * unat srcSize))
    \<and> ULawDecode dst16 bytes srcSize
        = Some (map (\<lambda>b. ucast (ULawDecode_S b)) (take (unat srcSize) bytes)
                @ drop (unat srcSize) dst16,
            of_nat (2 * unat srcSize)))
   \<and> (unat srcSize \<le> length bytes \<and> unat srcSize \<le> length dst8 \<longrightarrow>
      ALawToULaw dst8 bytes srcSize
        = Some (map ALawToULaw_S (take (unat srcSize) bytes) @ drop (unat srcSize) dst8,
            of_nat (unat srcSize))
    \<and> ULawToALaw dst8 bytes srcSize
        = Some (map ULawToALaw_S (take (unat srcSize) bytes) @ drop (unat srcSize) dst8,
            of_nat (unat srcSize)))
   \<and> unat (of_nat n :: c_unsigned) = n mod 2 ^ 32"
  using ALawEncode_result [of srcSize pcm dst8] ULawEncode_result [of srcSize pcm dst8]
    ALawDecode_result [of srcSize bytes dst16] ULawDecode_result [of srcSize bytes dst16]
    ALawToULaw_result [of srcSize bytes dst8] ULawToALaw_result [of srcSize bytes dst8]
  by (simp add: unat_of_nat)

theorem buffer_size_law_witness:
  "unat (2 :: size_t) div 2 \<le> length [- 1, 5 :: int16_t]
   \<and> unat (2 :: size_t) div 2 \<le> length [9, 9, 9 :: uint8_t]
   \<and> unat (2 :: size_t) \<le> length [0xd5, 0x55 :: uint8_t]
   \<and> unat (2 :: size_t) \<le> length [7, 7, 7 :: int16_t]
   \<and> unat (2 :: size_t) \<le> length [9, 9, 9 :: uint8_t]
   \<and> ALawEncode [9, 9, 9] [- 1, 5] 2 = Some ([0x55, 9, 9], 1)
   \<and> ULawEncode [9, 9, 9] [- 1, 5] 2 = Some ([0x7f, 9, 9], 1)
   \<and> ALawDecode [7, 7, 7] [0xd5, 0x55] 2 = Some ([8, - 8, 7], 4)
   \<and> ULawDecode [7, 7, 7] [0xd5, 0x55] 2 = Some ([716, - 716, 7], 4)
   \<and> ALawToULaw [9, 9, 9] [0xd5, 0x55] 2 = Some ([0xfe, 0x7e, 9], 2)
   \<and> ULawToALaw [9, 9, 9] [0xd5, 0x55] 2 = Some ([0xf3, 0x73, 9], 2)"
  using buffer_size_law [where srcSize = 2 and pcm = "[- 1, 5]" and ?dst8.0 = "[9, 9, 9]"
      and bytes = "[0xd5, 0x55]" and ?dst16.0 = "[7, 7, 7]"]
  by (simp add: ALawEncode_S_num ULawEncode_S_num ALawDecode_S_num ULawDecode_S_num
      ALawToULaw_S_num ULawToALaw_S_num word_compare)

text \<open>
  For \<open>2^31\<close> companded bytes \<open>ALawDecode\<close> writes all \<open>2^31\<close> samples and returns 0,
  not the output size \<open>2^32\<close>.
\<close>

theorem decode_return_wraps:
  "ALawDecode (replicate 2147483648 0) (replicate 2147483648 0) 2147483648
     = Some (replicate 2147483648 (ucast (ALawDecode_S 0)), 0)
   \<and> unat (0 :: c_unsigned) \<noteq> 2 * 2147483648"
  by (simp add: ALawDecode_result)

text \<open>
  C9. When \<open>ALawEncode\<close> or \<open>ULawEncode\<close> is called with an odd \<open>srcSize = 2*N + 1\<close>,
  exactly \<open>N = floor(srcSize/2)\<close> bytes are written, from the \<open>N\<close> whole samples only:
  whatever follows them in the source (\<open>trailing\<close>, which holds the odd byte) is ignored.
  The value returned is \<open>N\<close> as an \<open>unsigned\<close>, that is \<open>N\<close> modulo \<open>2^32\<close>.
\<close>

theorem odd_size_encode:
  assumes "unat srcSize = 2 * length pcm + 1" and "length pcm \<le> length dst"
  shows "ALawEncode dst (pcm @ trailing) srcSize
        = Some (map ALawEncode_S pcm @ drop (length pcm) dst, of_nat (length pcm))
    \<and> ULawEncode dst (pcm @ trailing) srcSize
        = Some (map ULawEncode_S pcm @ drop (length pcm) dst, of_nat (length pcm))
    \<and> unat (of_nat (length pcm) :: c_unsigned) = length pcm mod 2 ^ 32"
proof -
  from assms have half: "unat srcSize div 2 = length pcm"
    by simp
  with assms show ?thesis
    using ALawEncode_result [of srcSize "pcm @ trailing" dst]
      ULawEncode_result [of srcSize "pcm @ trailing" dst]
    by (simp add: unat_of_nat)
qed

theorem odd_size_encode_witness:
  "unat (5 :: size_t) = 2 * length [- 1, 0 :: int16_t] + 1
   \<and> length [- 1, 0 :: int16_t] \<le> length [9, 9, 9 :: uint8_t]
   \<and> ALawEncode [9, 9, 9] ([- 1, 0] @ [1234]) 5 = Some ([0x55, 0xd5, 9], 2)
   \<and> ULawEncode [9, 9, 9] ([- 1, 0] @ [1234]) 5 = Some ([0x7f, 0xff, 9], 2)"
  using odd_size_encode [where srcSize = 5 and pcm = "[- 1, 0]" and dst = "[9, 9, 9]"
      and trailing = "[1234]"]
  by (simp add: ALawEncode_S_num ULawEncode_S_num word_compare)

text \<open>
  For \<open>srcSize = 2^33 + 1\<close> the encoder writes \<open>2^32\<close> bytes and returns 0.
\<close>

theorem odd_size_return_wraps:
  "ALawEncode (replicate 4294967296 0) (replicate 4294967296 0) 8589934593
     = Some (replicate 4294967296 (ALawEncode_S 0), 0)
   \<and> unat (0 :: c_unsigned) \<noteq> 8589934593 div 2"
  by (simp add: ALawEncode_result)

end
